theory Spec2Isabelle
  imports Complex_Main "HOL-Library.Sublist"
begin

section \<open>Document indexing and similarity search: the model\<close>

text \<open>
  A shallow embedding of \<^verbatim>\<open>index_documents.py\<close> (chunking, the chunk store and
  the indexing pipeline) and of \<^verbatim>\<open>search_documents.py\<close> (scoring, ranking and the
  top-k cut).  Python integers are \<^typ>\<open>int\<close>, text is a \<^typ>\<open>string\<close>, a Python
  float is abstracted to a \<^typ>\<open>real\<close>, a raised exception is the left summand
  of a sum type, and a loop that may run forever returns \<^term>\<open>None\<close>.
\<close>

subsection \<open>Exceptions\<close>

text \<open>
  Every exception the two scripts raise themselves is a Python \<^verbatim>\<open>ValueError\<close>; the
  constructors name the place that raises it.
\<close>

datatype error =
    ExtractionError          \<comment> \<open>\<^verbatim>\<open>extract_text\<close>: unreadable file or unsupported file type\<close>
  | InvalidSplitStrategy     \<comment> \<open>\<^verbatim>\<open>process_document\<close>: "Invalid split strategy"\<close>
  | EmbeddingError           \<comment> \<open>\<^verbatim>\<open>generate_embedding\<close>: "error creating embedding"\<close>
  | RangeStepZero            \<comment> \<open>\<^verbatim>\<open>range(0, n, 0)\<close>: "range() arg 3 must not be zero"\<close>
  | IncompatibleDimension    \<comment> \<open>\<^verbatim>\<open>cosine_similarity\<close>: the two rows differ in length\<close>

subsection \<open>Python sequence primitives\<close>

text \<open>\<^verbatim>\<open>xs[i:j]\<close>: a negative index counts from the end, and both are clamped.\<close>

definition py_slice :: "'a list \<Rightarrow> int \<Rightarrow> int \<Rightarrow> 'a list" where
  "py_slice xs i j =
     (let n = int (length xs);
          lo = (if i < 0 then max 0 (i + n) else min i n);
          hi = (if j < 0 then max 0 (j + n) else min j n)
      in if lo < hi then take (nat (hi - lo)) (drop (nat lo) xs) else [])"

text \<open>\<^verbatim>\<open>xs[:k]\<close>, the slice from the start.\<close>

definition py_prefix :: "'a list \<Rightarrow> int \<Rightarrow> 'a list" where
  "py_prefix xs k = py_slice xs 0 k"

text \<open>\<^verbatim>\<open>range(0, n, step)\<close> for a length \<open>n\<close>: a zero step raises, a negative step
  gives the empty range.\<close>

definition py_range :: "nat \<Rightarrow> int \<Rightarrow> error + int list" where
  "py_range n step =
     (if step = 0 then Inl RangeStepZero
      else if step < 0 then Inr []
      else Inr (map (\<lambda>j. int j * step) [0 ..< (n + nat step - 1) div nat step]))"

text \<open>\<^verbatim>\<open>s.replace(a, b)\<close> for single characters.\<close>

definition replace_char :: "char \<Rightarrow> char \<Rightarrow> string \<Rightarrow> string" where
  "replace_char a b s = map (\<lambda>c. if c = a then b else c) s"

text \<open>\<^verbatim>\<open>s.split(c)\<close> for a single-character separator; \<open>cur\<close> is the piece being
  read.  The empty string splits into one empty piece.\<close>

fun split_char :: "char \<Rightarrow> string \<Rightarrow> string \<Rightarrow> string list" where
  "split_char sep cur [] = [cur]"
| "split_char sep cur (c # cs) =
     (if c = sep then cur # split_char sep [] cs else split_char sep (cur @ [c]) cs)"

text \<open>\<^verbatim>\<open>s.split('\n\n')\<close>: the separator is matched left to right, without overlap.\<close>

fun split_blank_line :: "string \<Rightarrow> string \<Rightarrow> string list" where
  "split_blank_line cur [] = [cur]"
| "split_blank_line cur [c] = [cur @ [c]]"
| "split_blank_line cur (c # d # cs) =
     (if c = CHR 0x0A \<and> d = CHR 0x0A then cur # split_blank_line [] cs
      else split_blank_line (cur @ [c]) (d # cs))"

text \<open>\<^verbatim>\<open>str.isspace\<close> on the code points below 256, and \<^verbatim>\<open>s.strip()\<close>.\<close>

definition is_space :: "char \<Rightarrow> bool" where
  "is_space c =
     (let k = of_char c :: nat
      in (9 \<le> k \<and> k \<le> 13) \<or> (28 \<le> k \<and> k \<le> 32) \<or> k = 133 \<or> k = 160)"

definition strip :: "string \<Rightarrow> string" where
  "strip s = rev (dropWhile is_space (rev (dropWhile is_space s)))"

text \<open>\<^verbatim>\<open>sep.join(xs)\<close>.\<close>

fun join :: "string \<Rightarrow> string list \<Rightarrow> string" where
  "join sep [] = []"
| "join sep [x] = x"
| "join sep (x # y # ys) = x @ sep @ join sep (y # ys)"

subsection \<open>TextChunker\<close>

text \<open>
  The \<^verbatim>\<open>while\<close> loop of \<^verbatim>\<open>fixed_size_chunks\<close>, with the loop variables \<open>start\<close> and
  \<open>chunks\<close> as arguments.  Nothing bounds the number of iterations, so the loop is a
  partial function: \<^term>\<open>None\<close> is a run that never leaves the loop.
\<close>

partial_function (option) fixed_size_loop ::
  "string \<Rightarrow> int \<Rightarrow> int \<Rightarrow> int \<Rightarrow> string list \<Rightarrow> string list option" where
  "fixed_size_loop text chunk_size overlap start chunks =
     (if start < int (length text) then
        (let endpos = start + chunk_size;
             chunk = py_slice text start endpos;
             chunks' = chunks @ [chunk];
             start' = endpos - overlap
         in if endpos \<ge> int (length text) then Some chunks'
            else fixed_size_loop text chunk_size overlap start' chunks')
      else Some chunks)"

declare fixed_size_loop.simps [code]

definition fixed_size_chunks :: "string \<Rightarrow> int \<Rightarrow> int \<Rightarrow> string list option" where
  "fixed_size_chunks text chunk_size overlap = fixed_size_loop text chunk_size overlap 0 []"

text \<open>The sentences of a text: terminators normalised, split, trimmed, empties dropped.\<close>

definition sentences_of :: "string \<Rightarrow> string list" where
  "sentences_of text =
     (let sentences = split_char CHR ''.'' []
                        (replace_char CHR ''?'' CHR ''.'' (replace_char CHR ''!'' CHR ''.'' text))
      in map strip (filter (\<lambda>s. strip s \<noteq> []) sentences))"

text \<open>The \<^verbatim>\<open>for i in range(...)\<close> loop of \<^verbatim>\<open>sentence_based_chunks\<close> over the indices
  still to visit.\<close>

fun sentence_loop :: "string list \<Rightarrow> int \<Rightarrow> int list \<Rightarrow> string list \<Rightarrow> string list" where
  "sentence_loop sentences sentences_per_chunk [] chunks = chunks"
| "sentence_loop sentences sentences_per_chunk (i # is) chunks =
     (let chunk = join ''. '' (py_slice sentences i (i + sentences_per_chunk))
      in sentence_loop sentences sentences_per_chunk is
           (if chunk \<noteq> [] then chunks @ [chunk @ ''.''] else chunks))"

definition sentence_based_chunks :: "string \<Rightarrow> int \<Rightarrow> error + string list" where
  "sentence_based_chunks text sentences_per_chunk =
     (let sentences = sentences_of text
      in case py_range (length sentences) sentences_per_chunk of
           Inl e \<Rightarrow> Inl e
         | Inr idxs \<Rightarrow> Inr (sentence_loop sentences sentences_per_chunk idxs []))"

definition paragraph_based_chunks :: "string \<Rightarrow> string list" where
  "paragraph_based_chunks text =
     (let paragraphs = split_blank_line [] text
      in map strip (filter (\<lambda>p. strip p \<noteq> []) paragraphs))"

text \<open>
  The contract of sentence chunking in the specification's words: the terminators \<open>!\<close>
  and \<open>?\<close> become full stops, the text is split at full stops, the fragments are
  trimmed, the empty ones discarded, the rest grouped into batches of \<open>k\<close> consecutive
  sentences, and each batch joined with \<^verbatim>\<open>". "\<close> and closed with a full stop.
\<close>

function batches :: "nat \<Rightarrow> 'a list \<Rightarrow> 'a list list" where
  "batches k xs = (if k = 0 \<or> xs = [] then [] else take k xs # batches k (drop k xs))"
  by pat_completeness auto
termination
  by (relation "measure (\<lambda>(k, xs). length xs)") auto

declare batches.simps [simp del]

definition sentence_based_spec :: "string \<Rightarrow> nat \<Rightarrow> string list" where
  "sentence_based_spec text k =
     (let normalized = map (\<lambda>c. if c = CHR ''!'' \<or> c = CHR ''?'' then CHR ''.'' else c) text;
          fragments = split_char CHR ''.'' [] normalized;
          trimmed = map strip fragments;
          sentences = filter (\<lambda>s. s \<noteq> []) trimmed
      in map (\<lambda>batch. join ''. '' batch @ ''.'') (batches k sentences))"

subsection \<open>The chunk store\<close>

text \<open>
  The table \<^verbatim>\<open>document_chunks\<close>.  A search result carries a row without its
  embedding, so the row extends that dictionary by the embedding column.
\<close>

record chunk_dict =
  chunk_id :: nat
  chunk_text :: string
  filename :: string
  split_strategy :: string
  created_at :: nat

record chunk_row = chunk_dict +
  embedding :: "real list"

record store =
  rows :: "chunk_row list"
  next_id :: nat

text \<open>\<^verbatim>\<open>DELETE FROM document_chunks\<close>, the identity sequence restarted at 1, committed.\<close>

definition delete_all_chunks :: "store \<Rightarrow> store" where
  "delete_all_chunks db = \<lparr>rows = [], next_id = 1\<rparr>"

text \<open>One bulk \<^verbatim>\<open>INSERT\<close> of (chunk_text, embedding, filename, split_strategy) tuples;
  the store numbers the rows and stamps them with the time \<open>now\<close>.\<close>

fun insert_rows ::
  "nat \<Rightarrow> nat \<Rightarrow> (string \<times> real list \<times> string \<times> string) list \<Rightarrow> chunk_row list" where
  "insert_rows now n [] = []"
| "insert_rows now n ((t, e, f, s) # vs) =
     \<lparr>chunk_id = n, chunk_text = t, filename = f, split_strategy = s, created_at = now,
      embedding = e\<rparr> # insert_rows now (Suc n) vs"

definition insert_chunks ::
  "nat \<Rightarrow> store \<Rightarrow> (string \<times> real list \<times> string \<times> string) list \<Rightarrow> store" where
  "insert_chunks now db chunks =
     \<lparr>rows = rows db @ insert_rows now (next_id db) chunks,
      next_id = next_id db + length chunks\<rparr>"

subsection \<open>The indexing pipeline\<close>

text \<open>\<^verbatim>\<open>os.path.basename\<close>: what follows the last slash.\<close>

definition basename :: "string \<Rightarrow> string" where
  "basename p = rev (takeWhile (\<lambda>c. c \<noteq> CHR ''/'') (rev p))"

text \<open>
  The embedding loop of \<^verbatim>\<open>process_document\<close>: the first failing call of the embedding
  service ends the loop with its exception.  The service is the parameter \<open>generate_embedding\<close>.
\<close>

fun embed_loop ::
  "(string \<Rightarrow> error + real list) \<Rightarrow> string \<Rightarrow> string \<Rightarrow> string list \<Rightarrow>
   (string \<times> real list \<times> string \<times> string) list \<Rightarrow>
   error + (string \<times> real list \<times> string \<times> string) list" where
  "embed_loop generate_embedding fname strategy [] chunks_data = Inr chunks_data"
| "embed_loop generate_embedding fname strategy (chunk # chunks) chunks_data =
     (case generate_embedding chunk of
        Inl e \<Rightarrow> Inl e
      | Inr v \<Rightarrow> embed_loop generate_embedding fname strategy chunks
                  (chunks_data @ [(chunk, v, fname, strategy)]))"

text \<open>How a run ends: normally, or with an exception; either way with the store as the
  run left it.\<close>

datatype outcome = Indexed store | Raised error store

fun store_of :: "outcome \<Rightarrow> store" where
  "store_of (Indexed db) = db"
| "store_of (Raised e db) = db"

text \<open>The chunking step: \<^term>\<open>None\<close> when the chunker does not return.\<close>

definition split_text :: "string \<Rightarrow> string \<Rightarrow> int \<Rightarrow> int \<Rightarrow> int \<Rightarrow> (error + string list) option" where
  "split_text text strategy chunk_size overlap sentences_per_chunk =
     (if strategy = ''fixed_size'' then
        map_option Inr (fixed_size_chunks text chunk_size overlap)
      else if strategy = ''sentence'' then
        Some (sentence_based_chunks text sentences_per_chunk)
      else if strategy = ''paragraph'' then
        Some (Inr (paragraph_based_chunks text))
      else Some (Inl InvalidSplitStrategy))"

text \<open>
  \<^verbatim>\<open>process_document\<close>.  The text extractor and the embedding service are parameters;
  \<open>db\<close> is the store before the run.  The store is cleared once the chunks exist and
  before the first embedding is requested.
\<close>

definition process_document ::
  "(string \<Rightarrow> error + string) \<Rightarrow> (string \<Rightarrow> error + real list) \<Rightarrow> nat \<Rightarrow> store \<Rightarrow>
   string \<Rightarrow> string \<Rightarrow> int \<Rightarrow> int \<Rightarrow> int \<Rightarrow> outcome option" where
  "process_document extract_text generate_embedding now db file_path strategy chunk_size overlap
       sentences_per_chunk =
     (case extract_text file_path of
        Inl e \<Rightarrow> Some (Raised e db)
      | Inr text \<Rightarrow>
          (case split_text text strategy chunk_size overlap sentences_per_chunk of
             None \<Rightarrow> None
           | Some (Inl e) \<Rightarrow> Some (Raised e db)
           | Some (Inr chunks) \<Rightarrow>
               (let fname = basename file_path;
                    db1 = delete_all_chunks db
                in case embed_loop generate_embedding fname strategy chunks [] of
                     Inl e \<Rightarrow> Some (Raised e db1)
                   | Inr chunks_data \<Rightarrow> Some (Indexed (insert_chunks now db1 chunks_data)))))"

subsection \<open>Similarity search\<close>

text \<open>
  The library function \<^verbatim>\<open>sklearn.metrics.pairwise.cosine_similarity\<close> on two single-row
  matrices: rows of different length, or of no features, are refused; otherwise each
  row is scaled by its norm (a zero norm counts as 1) and the result is the dot product.
\<close>

definition dot :: "real list \<Rightarrow> real list \<Rightarrow> real" where
  "dot x y = sum_list (map (\<lambda>(a, b). a * b) (zip x y))"

definition row_norm :: "real list \<Rightarrow> real" where
  "row_norm x = (let n = sqrt (dot x x) in if n = 0 then 1 else n)"

definition cosine_similarity :: "real list \<Rightarrow> real list \<Rightarrow> error + real" where
  "cosine_similarity x y =
     (if x = [] \<or> y = [] \<or> length x \<noteq> length y then Inl IncompatibleDimension
      else Inr (dot x y / (row_norm x * row_norm y)))"

text \<open>\<^verbatim>\<open>_calculate_similarity\<close>: both vectors become one-row matrices and go to the
  library function \<open>cosine\<close>.\<close>

definition calculate_similarity ::
  "(real list \<Rightarrow> real list \<Rightarrow> error + real) \<Rightarrow> real list \<Rightarrow> real list \<Rightarrow> error + real" where
  "calculate_similarity cosine vec1 vec2 = cosine vec1 vec2"

text \<open>The dictionary a result carries: the row without its embedding.\<close>

definition chunk_dict_of :: "chunk_row \<Rightarrow> chunk_dict" where
  "chunk_dict_of row =
     \<lparr>chunk_id = chunk_id row, chunk_text = chunk_text row, filename = filename row,
      split_strategy = split_strategy row, created_at = created_at row\<rparr>"

text \<open>The scoring loop of \<^verbatim>\<open>search_similar_chunks\<close> over the rows read from the store.\<close>

fun score_rows ::
  "(real list \<Rightarrow> real list \<Rightarrow> error + real) \<Rightarrow> real list \<Rightarrow> chunk_row list \<Rightarrow>
   (chunk_dict \<times> real) list \<Rightarrow> error + (chunk_dict \<times> real) list" where
  "score_rows cosine query_embedding [] results = Inr results"
| "score_rows cosine query_embedding (row # rest) results =
     (let chunk_embedding = embedding row
      in if chunk_embedding = [] then score_rows cosine query_embedding rest results
         else case calculate_similarity cosine query_embedding chunk_embedding of
                Inl e \<Rightarrow> Inl e
              | Inr similarity \<Rightarrow>
                  score_rows cosine query_embedding rest
                    (results @ [(chunk_dict_of row, similarity)]))"

text \<open>\<^verbatim>\<open>results.sort(key=lambda x: x[1], reverse=True)\<close>: Python's sort is stable, also
  when reversed; here as an insertion sort that puts an entry before the first entry
  whose score is not larger.\<close>

fun insert_desc :: "('a \<times> real) \<Rightarrow> ('a \<times> real) list \<Rightarrow> ('a \<times> real) list" where
  "insert_desc x [] = [x]"
| "insert_desc x (y # ys) = (if snd y \<le> snd x then x # y # ys else y # insert_desc x ys)"

definition sort_desc :: "('a \<times> real) list \<Rightarrow> ('a \<times> real) list" where
  "sort_desc xs = foldr insert_desc xs []"

definition search_similar_chunks ::
  "(real list \<Rightarrow> real list \<Rightarrow> error + real) \<Rightarrow> store \<Rightarrow> real list \<Rightarrow> int \<Rightarrow>
   error + (chunk_dict \<times> real) list" where
  "search_similar_chunks cosine db query_embedding top_k =
     (case score_rows cosine query_embedding (rows db) [] of
        Inl e \<Rightarrow> Inl e
      | Inr results \<Rightarrow> Inr (py_prefix (sort_desc results) top_k))"

subsection \<open>Reference notions and sample collaborators\<close>

text \<open>Putting chunks back together: every chunk after the first loses its leading
  \<open>overlap\<close> characters, which repeat the end of the chunk before it.\<close>

fun reassemble :: "nat \<Rightarrow> string list \<Rightarrow> string" where
  "reassemble overlap [] = []"
| "reassemble overlap (c # rest) = c @ concat (map (drop overlap) rest)"

text \<open>A text extractor that reads the text \<open>text\<close> from every file, and an embedding
  service that fails on the chunk \<open>bad\<close> and embeds every other chunk.\<close>

definition read_as :: "string \<Rightarrow> string \<Rightarrow> error + string" where
  "read_as text file_path = Inr text"

definition embed_unless :: "string \<Rightarrow> string \<Rightarrow> error + real list" where
  "embed_unless bad text = (if text = bad then Inl EmbeddingError else Inr [1, 0])"

text \<open>A stored row with the identifier \<open>n\<close> and the embedding \<open>v\<close>.\<close>

definition sample_row :: "nat \<Rightarrow> real list \<Rightarrow> chunk_row" where
  "sample_row n v =
     \<lparr>chunk_id = n, chunk_text = ''chunk'', filename = ''doc.pdf'',
      split_strategy = ''fixed_size'', created_at = 0, embedding = v\<rparr>"

section \<open>Properties\<close>

subsection \<open>Fixed-size chunking\<close>

lemma py_slice_forward:
  assumes "0 \<le> s" "s < int (length xs)" "0 < c"
  shows "py_slice xs s (s + c) = take (nat c) (drop (nat s) xs)"
proof -
  have a: "nat (s + c) - nat s = nat c" "nat (int (length xs) - s) = length xs - nat s"
    using assms by linarith+
  show ?thesis using assms by (auto simp: py_slice_def Let_def min_def a)
qed

lemma fixed_size_loop_returns:
  assumes "ov < cs"
  shows "\<exists>y. fixed_size_loop text cs ov s acc = Some y"
  using assms
proof (induction "nat (int (length text) - s)" arbitrary: s acc rule: less_induct)
  case less
  show ?case
  proof (cases "s < int (length text) \<and> s + cs < int (length text)")
    case True
    have "nat (int (length text) - (s + cs - ov)) < nat (int (length text) - s)"
      using True less.prems by linarith
    from less.hyps[OF this less.prems]
    obtain y where "fixed_size_loop text cs ov (s + cs - ov) (acc @ [py_slice text s (s + cs)]) = Some y"
      by blast
    with True show ?thesis
      by (subst fixed_size_loop.simps) (simp add: Let_def)
  next
    case False
    then show ?thesis
      by (subst fixed_size_loop.simps) (auto simp: Let_def)
  qed
qed

lemma fixed_size_loop_stuck:
  assumes "fixed_size_loop t cs ov s acc = Some y"
  shows "\<not> (cs \<le> ov \<and> s \<le> 0 \<and> cs < int (length t) \<and> 0 < int (length t))"
proof (rule fixed_size_loop.raw_induct
    [where P = "\<lambda>t cs ov s acc y. \<not> (cs \<le> ov \<and> s \<le> 0 \<and> cs < int (length t) \<and> 0 < int (length t))",
     OF _ assms])
  fix f :: "string \<Rightarrow> int \<Rightarrow> int \<Rightarrow> int \<Rightarrow> string list \<Rightarrow> string list option"
  fix t cs ov s acc y
  assume IH: "\<And>t cs ov s acc y. f t cs ov s acc = Some y \<Longrightarrow>
                \<not> (cs \<le> ov \<and> s \<le> 0 \<and> cs < int (length t) \<and> 0 < int (length t))"
  assume eq: "(if s < int (length t) then
        (let endpos = s + cs;
             chunk = py_slice t s endpos;
             chunks' = acc @ [chunk];
             start' = endpos - ov
         in if endpos \<ge> int (length t) then Some chunks'
            else f t cs ov start' chunks')
      else Some acc) = Some y"
  show "\<not> (cs \<le> ov \<and> s \<le> 0 \<and> cs < int (length t) \<and> 0 < int (length t))"
  proof
    assume a: "cs \<le> ov \<and> s \<le> 0 \<and> cs < int (length t) \<and> 0 < int (length t)"
    then have c: "s < int (length t)" "\<not> int (length t) \<le> s + cs" by linarith+
    from eq c have "f t cs ov (s + cs - ov) (acc @ [py_slice t s (s + cs)]) = Some y"
      by (simp add: Let_def)
    from IH[OF this] a show False by simp
  qed
qed

lemma fixed_size_loop_diverges:
  "cs \<le> ov \<Longrightarrow> s \<le> 0 \<Longrightarrow> cs < int (length t) \<Longrightarrow> t \<noteq> [] \<Longrightarrow>
   fixed_size_loop t cs ov s acc = None"
  using fixed_size_loop_stuck[of t cs ov s acc] by (cases "fixed_size_loop t cs ov s acc") auto

lemma fixed_size_loop_chunks:
  assumes "0 \<le> ov" "ov < cs" "0 \<le> s" "s < int (length text)"
  shows "\<exists>cks. fixed_size_loop text cs ov s acc = Some (acc @ cks) \<and> cks \<noteq> [] \<and>
           (\<forall>c \<in> set (butlast cks). length c = nat cs) \<and> last cks \<noteq> [] \<and>
           length (last cks) \<le> nat cs \<and>
           hd cks = take (nat cs) (drop (nat s) text) \<and>
           reassemble (nat ov) cks = drop (nat s) text"
  using assms
proof (induction "nat (int (length text) - s)" arbitrary: s acc rule: less_induct)
  case less
  let ?n = "int (length text)"
  let ?c = "take (nat cs) (drop (nat s) text)"
  have sl: "py_slice text s (s + cs) = ?c"
    using less.prems by (intro py_slice_forward) auto
  show ?case
  proof (cases "s + cs < ?n")
    case False
    then have "fixed_size_loop text cs ov s acc = Some (acc @ [?c])"
      using less.prems sl by (subst fixed_size_loop.simps) (simp add: Let_def)
    moreover have "?c = drop (nat s) text" using False less.prems by simp
    moreover have "drop (nat s) text \<noteq> []" using less.prems by simp
    ultimately show ?thesis using False less.prems
      by (intro exI[of _ "[?c]"]) simp
  next
    case True
    let ?s' = "s + cs - ov"
    have m: "nat (?n - ?s') < nat (?n - s)" using True less.prems by linarith
    have p: "0 \<le> ?s'" "?s' < ?n" using True less.prems by auto
    from less.hyps[OF m less.prems(1,2) p, of "acc @ [?c]"]
    obtain cks where cks: "fixed_size_loop text cs ov ?s' (acc @ [?c]) = Some ((acc @ [?c]) @ cks)"
      "cks \<noteq> []" "\<forall>c \<in> set (butlast cks). length c = nat cs" "last cks \<noteq> []"
      "length (last cks) \<le> nat cs"
      "hd cks = take (nat cs) (drop (nat ?s') text)"
      "reassemble (nat ov) cks = drop (nat ?s') text"
      by blast
    have run: "fixed_size_loop text cs ov s acc = Some (acc @ (?c # cks))"
      using True less.prems sl cks(1) by (subst fixed_size_loop.simps) (simp add: Let_def)
    have lc: "length ?c = nat cs" using True less.prems by auto
    have lh: "nat ov \<le> length (hd cks)"
      using cks(6) True less.prems by auto
    have re: "reassemble (nat ov) cks = hd cks @ concat (map (drop (nat ov)) (tl cks))"
      using cks(2) by (cases cks) auto
    have "concat (map (drop (nat ov)) cks) = drop (nat ov) (hd cks) @ concat (map (drop (nat ov)) (tl cks))"
      using cks(2) by (cases cks) auto
    also have "\<dots> = drop (nat ov) (hd cks @ concat (map (drop (nat ov)) (tl cks)))"
      using lh by simp
    also have "\<dots> = drop (nat ov) (drop (nat ?s') text)" using cks(7) re by simp
    also have "\<dots> = drop (nat cs) (drop (nat s) text)"
    proof -
      have "nat ov + nat ?s' = nat cs + nat s" using less.prems by linarith
      then show ?thesis by (simp add: add.commute)
    qed
    finally have "?c @ concat (map (drop (nat ov)) cks) = ?c @ drop (nat cs) (drop (nat s) text)"
      by simp
    then have cc: "reassemble (nat ov) (?c # cks) = drop (nat s) text"
      by (simp only: append_take_drop_id reassemble.simps)
    show ?thesis
      using run cks(2-5) lc cc
      by (intro exI[of _ "?c # cks"]) (auto simp: butlast_snoc simp del: reassemble.simps)
  qed
qed

lemma fixed_size_chunks_empty: "fixed_size_chunks [] cs ov = Some []"
  by (simp add: fixed_size_chunks_def fixed_size_loop.simps)

lemma fixed_size_chunks_shape:
  assumes "0 \<le> ov" "ov < cs" "text \<noteq> []"
  shows "\<exists>cks. fixed_size_chunks text cs ov = Some cks \<and> cks \<noteq> [] \<and>
           (\<forall>c \<in> set (butlast cks). length c = nat cs) \<and> last cks \<noteq> [] \<and>
           length (last cks) \<le> nat cs \<and> reassemble (nat ov) cks = text"
  using fixed_size_loop_chunks[OF assms(1,2), of 0 "text" "[]"] assms(3)
  by (auto simp: fixed_size_chunks_def)

text \<open>
  Claim C6.  For every text and every \<open>chunk_size > overlap \<ge> 0\<close>, fixed-size chunking
  returns; the chunk list is non-empty exactly when the text is non-empty (the empty
  text gives the empty list), and no chunk is longer than \<open>chunk_size\<close>.
\<close>

theorem fixed_size_nonempty_and_bounded:
  assumes "0 \<le> overlap" "overlap < chunk_size"
  shows "\<exists>chunks. fixed_size_chunks text chunk_size overlap = Some chunks \<and>
           (chunks \<noteq> [] \<longleftrightarrow> text \<noteq> []) \<and>
           (\<forall>c \<in> set chunks. int (length c) \<le> chunk_size)"
proof (cases "text = []")
  case True
  then show ?thesis by (simp add: fixed_size_chunks_empty)
next
  case False
  from fixed_size_chunks_shape[OF assms False]
  obtain cks where cks: "fixed_size_chunks text chunk_size overlap = Some cks" "cks \<noteq> []"
    "\<forall>c \<in> set (butlast cks). length c = nat chunk_size" "length (last cks) \<le> nat chunk_size"
    by blast
  have "int (length c) \<le> chunk_size" if "c \<in> set cks" for c
  proof -
    from that cks(2) have "c \<in> set (butlast cks @ [last cks])" by simp
    then have "c \<in> set (butlast cks) \<or> c = last cks" by (simp only: set_append) auto
    with cks(3,4) have "length c \<le> nat chunk_size" by auto
    with assms show ?thesis by linarith
  qed
  then have "\<forall>c \<in> set cks. int (length c) \<le> chunk_size" by blast
  with cks(1,2) False show ?thesis by simp
qed

text \<open>The configuration \<open>chunk_size = 5\<close>, \<open>overlap = 3\<close> on a ten-character text.\<close>

theorem fixed_size_nonempty_and_bounded_witness:
  "(0::int) \<le> 3 \<and> (3::int) < 5 \<and>
   fixed_size_chunks ''abcdefghij'' 5 3 = Some [''abcde'', ''cdefg'', ''efghi'', ''ghij''] \<and>
   (\<exists>chunks. fixed_size_chunks ''abcdefghij'' 5 3 = Some chunks \<and>
      (chunks \<noteq> [] \<longleftrightarrow> ''abcdefghij'' \<noteq> []) \<and> (\<forall>c \<in> set chunks. int (length c) \<le> 5))"
proof -
  have run: "fixed_size_chunks ''abcdefghij'' 5 3 = Some [''abcde'', ''cdefg'', ''efghi'', ''ghij'']"
    by (simp add: fixed_size_chunks_def fixed_size_loop.simps py_slice_def Let_def)
  show ?thesis
    using fixed_size_nonempty_and_bounded[of 3 5 "''abcdefghij''"] run by simp
qed

text \<open>
  Claim C10.  For every non-empty text and \<open>0 \<le> overlap < chunk_size\<close>, every chunk but
  the last has exactly \<open>chunk_size\<close> characters and the last chunk is not empty.
\<close>

theorem fixed_size_only_last_chunk_short:
  assumes "text \<noteq> []" "0 \<le> overlap" "overlap < chunk_size"
  shows "\<exists>chunks. fixed_size_chunks text chunk_size overlap = Some chunks \<and> chunks \<noteq> [] \<and>
           (\<forall>c \<in> set (butlast chunks). int (length c) = chunk_size) \<and> last chunks \<noteq> []"
proof -
  from fixed_size_chunks_shape[OF assms(2,3,1)]
  obtain cks where cks: "fixed_size_chunks text chunk_size overlap = Some cks" "cks \<noteq> []"
    "\<forall>c \<in> set (butlast cks). length c = nat chunk_size" "last cks \<noteq> []"
    by blast
  have "int (length c) = chunk_size" if "c \<in> set (butlast cks)" for c
  proof -
    from cks(3) that have "length c = nat chunk_size" by blast
    with assms(2,3) show ?thesis by linarith
  qed
  with cks(1,2,4) show ?thesis by blast
qed

text \<open>Four chunks of a ten-character text: three of five characters and a last one of four.\<close>

theorem fixed_size_only_last_chunk_short_witness:
  "''abcdefghij'' \<noteq> [] \<and> (0::int) \<le> 3 \<and> (3::int) < 5 \<and>
   fixed_size_chunks ''abcdefghij'' 5 3 = Some [''abcde'', ''cdefg'', ''efghi'', ''ghij''] \<and>
   (\<exists>chunks. fixed_size_chunks ''abcdefghij'' 5 3 = Some chunks \<and> chunks \<noteq> [] \<and>
      (\<forall>c \<in> set (butlast chunks). int (length c) = 5) \<and> last chunks \<noteq> [])"
proof -
  have run: "fixed_size_chunks ''abcdefghij'' 5 3 = Some [''abcde'', ''cdefg'', ''efghi'', ''ghij'']"
    by (simp add: fixed_size_chunks_def fixed_size_loop.simps py_slice_def Let_def)
  show ?thesis
    using fixed_size_only_last_chunk_short[of "''abcdefghij''" 3 5] run by simp
qed

text \<open>
  Claim C5.  For every text and every \<open>chunk_size > overlap \<ge> 0\<close>, the chunks put back
  together, each chunk after the first without its leading \<open>overlap\<close> characters, are the
  original text.
\<close>

theorem fixed_size_reassemble:
  assumes "0 \<le> overlap" "overlap < chunk_size"
  shows "\<exists>chunks. fixed_size_chunks text chunk_size overlap = Some chunks \<and>
           reassemble (nat overlap) chunks = text"
proof (cases "text = []")
  case True
  then show ?thesis by (simp add: fixed_size_chunks_empty)
next
  case False
  from fixed_size_chunks_shape[OF assms False] show ?thesis by blast
qed

text \<open>The same run: the overlaps \<open>cde\<close>, \<open>efg\<close> and \<open>ghi\<close> are removed.\<close>

theorem fixed_size_reassemble_witness:
  "(0::int) \<le> 3 \<and> (3::int) < 5 \<and>
   reassemble 3 [''abcde'', ''cdefg'', ''efghi'', ''ghij''] = ''abcdefghij'' \<and>
   (\<exists>chunks. fixed_size_chunks ''abcdefghij'' 5 3 = Some chunks \<and>
      reassemble (nat 3) chunks = ''abcdefghij'')"
  using fixed_size_reassemble[of 3 5 "''abcdefghij''"] by simp

text \<open>
  Termination.  Fixed-size chunking returns for every text and every configuration with
  \<open>overlap < chunk_size\<close>, and so does the chunking step of \<^verbatim>\<open>process_document\<close>.  No
  configuration is rejected: whatever \<open>chunk_size\<close> and \<open>overlap\<close> are, the fixed-size
  chunking step raises nothing.
\<close>

lemma fixed_size_terminates:
  "(overlap < chunk_size \<longrightarrow>
      (\<exists>chunks. fixed_size_chunks text chunk_size overlap = Some chunks \<and>
         split_text text ''fixed_size'' chunk_size overlap sentences_per_chunk
           = Some (Inr chunks))) \<and>
   split_text text ''fixed_size'' chunk_size overlap sentences_per_chunk \<noteq> Some (Inl e)"
proof -
  have "split_text text ''fixed_size'' chunk_size overlap sentences_per_chunk \<noteq> Some (Inl e)"
    by (auto simp: split_text_def)
  moreover have "\<exists>chunks. fixed_size_chunks text chunk_size overlap = Some chunks \<and>
         split_text text ''fixed_size'' chunk_size overlap sentences_per_chunk
           = Some (Inr chunks)" if "overlap < chunk_size"
    using fixed_size_loop_returns[OF that, of "text" 0 "[]"]
    by (auto simp: split_text_def fixed_size_chunks_def)
  ultimately show ?thesis by blast
qed

text \<open>A negative overlap is accepted as well: the step is then larger than the chunk.\<close>

lemma fixed_size_terminates_example:
  "(-1::int) < 2 \<and>
   fixed_size_chunks ''abcdefg'' 2 (-1) = Some [''ab'', ''de'', ''g''] \<and>
   split_text ''abcdefg'' ''fixed_size'' 2 (-1) 5 = Some (Inr [''ab'', ''de'', ''g'']) \<and>
   split_text ''abcdefg'' ''fixed_size'' 2 (-1) 5 \<noteq> Some (Inl InvalidSplitStrategy)"
proof -
  have run: "fixed_size_chunks ''abcdefg'' 2 (-1) = Some [''ab'', ''de'', ''g'']"
    by (simp add: fixed_size_chunks_def fixed_size_loop.simps py_slice_def Let_def)
  show ?thesis
    using fixed_size_terminates[of "-1" 2 "''abcdefg''" 5 InvalidSplitStrategy] run by simp
qed

text \<open>
  Claim C4.  Fixed-size chunking is to terminate for every input, a configuration with
  \<open>overlap \<ge> chunk_size\<close> being rejected as a configuration error before chunking is used.
  The code checks nothing and the loop does not return.  With \<open>overlap = chunk_size = 1\<close> on
  a three-character text the start offset never advances, and neither the chunker nor
  \<^verbatim>\<open>process_document\<close> returns; the same holds for the default \<open>chunk_size = 1000\<close> with
  \<open>overlap = 1000\<close> on a text of 1001 characters.
\<close>

theorem fixed_size_overlap_never_returns:
  "fixed_size_chunks ''aaa'' 1 1 = None \<and>
   process_document (read_as ''aaa'') (embed_unless ''x'') 0 \<lparr>rows = [], next_id = 1\<rparr>
     ''a.pdf'' ''fixed_size'' 1 1 5 = None \<and>
   fixed_size_chunks (replicate 1001 CHR ''a'') 1000 1000 = None"
proof -
  have small: "fixed_size_chunks ''aaa'' 1 1 = None"
    unfolding fixed_size_chunks_def by (rule fixed_size_loop_diverges) simp_all
  have default: "fixed_size_chunks (replicate 1001 CHR ''a'') 1000 1000 = None"
    unfolding fixed_size_chunks_def by (rule fixed_size_loop_diverges) simp_all
  from small have "process_document (read_as ''aaa'') (embed_unless ''x'') 0
      \<lparr>rows = [], next_id = 1\<rparr> ''a.pdf'' ''fixed_size'' 1 1 5 = None"
    by (simp add: process_document_def read_as_def split_text_def)
  with small default show ?thesis by simp
qed

subsection \<open>Sentence-based chunking\<close>

lemma sentence_loop_concat:
  "sentence_loop sentences k idxs chunks =
     chunks @ concat (map (\<lambda>i. let chunk = join ''. '' (py_slice sentences i (i + k))
                                in if chunk \<noteq> [] then [chunk @ ''.''] else []) idxs)"
  by (induction idxs arbitrary: chunks) (simp_all add: Let_def)

lemma join_nonempty: "xs \<noteq> [] \<Longrightarrow> hd xs \<noteq> [] \<Longrightarrow> join sep xs \<noteq> []"
  by (cases "(sep, xs)" rule: join.cases) simp_all

lemma batch_index_in_range:
  assumes "0 < k" "j < (n + k - 1) div k"
  shows "j * k < (n::nat)"
proof -
  from assms(2) have "Suc j \<le> (n + k - 1) div k" by simp
  with assms(1) have "Suc j * k \<le> n + k - 1"
    by (simp only: less_eq_div_iff_mult_less_eq)
  with assms(1) show ?thesis by simp
qed

lemma batches_by_index:
  assumes "0 < k"
  shows "batches k xs = map (\<lambda>j. take k (drop (j * k) xs)) [0 ..< (length xs + k - 1) div k]"
  using assms
proof (induction k xs rule: batches.induct)
  case (1 k xs)
  show ?case
  proof (cases "xs = []")
    case True
    with "1.prems" show ?thesis by (simp add: batches.simps)
  next
    case False
    let ?m = "(length xs + k - 1) div k"
    let ?m' = "(length (drop k xs) + k - 1) div k"
    have n1: "0 < length xs" using False by simp
    have "k \<le> length xs + k - 1" using n1 by linarith
    with "1.prems" have "?m = Suc ((length xs + k - 1 - k) div k)"
      by (simp only: le_div_geq)
    then have m1: "?m = Suc ((length xs - 1) div k)" by simp
    have m2: "?m' = (length xs - 1) div k"
    proof (cases "k \<le> length xs")
      case True
      with "1.prems" have "length xs - k + k - 1 = length xs - 1" by simp
      then show ?thesis by simp
    next
      case False
      then have "length xs - 1 < k" "length (drop k xs) + k - 1 < k"
        using "1.prems" by simp_all
      then show ?thesis by (simp only: div_less)
    qed
    from m1 m2 have m: "?m = Suc ?m'" by simp
    have IH: "batches k (drop k xs) = map (\<lambda>j. take k (drop (j * k) (drop k xs))) [0 ..< ?m']"
      using "1.IH" False "1.prems" by simp
    have "map (\<lambda>j. take k (drop (j * k) xs)) [0 ..< Suc ?m']
          = take k xs # map (\<lambda>j. take k (drop (Suc j * k) xs)) [0 ..< ?m']"
      by (simp only: upt_conv_Cons[of 0] map_Suc_upt[symmetric]) (simp add: comp_def)
    also have "\<dots> = take k xs # map (\<lambda>j. take k (drop (j * k) (drop k xs))) [0 ..< ?m']"
      by (simp add: add.commute)
    finally show ?thesis
      using False "1.prems" IH m by (subst batches.simps) simp
  qed
qed

lemma sentences_of_nonempty: "s \<in> set (sentences_of text) \<Longrightarrow> s \<noteq> []"
  by (auto simp: sentences_of_def Let_def)

lemma sentence_loop_batches:
  assumes "0 < k" "\<forall>s \<in> set sentences. s \<noteq> []"
  shows "sentence_loop sentences (int k) (map (\<lambda>j. int j * int k) [0 ..< (length sentences + k - 1) div k]) []
         = map (\<lambda>batch. join ''. '' batch @ ''.'') (batches k sentences)"
proof -
  let ?m = "(length sentences + k - 1) div k"
  have step: "(let chunk = join ''. '' (py_slice sentences (int j * int k) (int j * int k + int k))
               in if chunk \<noteq> [] then [chunk @ ''.''] else [])
              = [join ''. '' (take k (drop (j * k) sentences)) @ ''.'']"
    if "j \<in> set [0 ..< ?m]" for j
  proof -
    from that have "j < ?m" by simp
    from batch_index_in_range[OF assms(1) this] have lt: "j * k < length sentences" .
    from lt have "int (j * k) < int (length sentences)" by (simp only: of_nat_less_iff)
    then have "py_slice sentences (int (j * k)) (int (j * k) + int k) = take (nat (int k)) (drop (nat (int (j * k))) sentences)"
      using assms(1) by (intro py_slice_forward) simp_all
    then have sl: "py_slice sentences (int j * int k) (int j * int k + int k) = take k (drop (j * k) sentences)"
      unfolding nat_int by (simp only: of_nat_mult)
    have ne: "take k (drop (j * k) sentences) \<noteq> []" using lt assms(1) by simp
    then have "hd (take k (drop (j * k) sentences)) \<in> set (take k (drop (j * k) sentences))"
      by (rule hd_in_set)
    then have "hd (take k (drop (j * k) sentences)) \<in> set sentences"
      by (blast dest: in_set_takeD in_set_dropD)
    with assms(2) have "hd (take k (drop (j * k) sentences)) \<noteq> []" by blast
    from join_nonempty[OF ne this] sl show ?thesis by (simp add: Let_def)
  qed
  have "sentence_loop sentences (int k) (map (\<lambda>j. int j * int k) [0 ..< ?m]) []
        = concat (map (\<lambda>j. [join ''. '' (take k (drop (j * k) sentences)) @ ''.'']) [0 ..< ?m])"
    unfolding sentence_loop_concat
    by (simp only: map_map comp_def append_Nil) (simp only: step cong: map_cong)
  also have "\<dots> = map (\<lambda>j. join ''. '' (take k (drop (j * k) sentences)) @ ''.'') [0 ..< ?m]"
    by (induction ?m) simp_all
  also have "\<dots> = map (\<lambda>batch. join ''. '' batch @ ''.'') (batches k sentences)"
    by (simp add: batches_by_index[OF assms(1)] comp_def)
  finally show ?thesis .
qed

lemma sentences_of_spec_words:
  "sentences_of text =
     filter (\<lambda>s. s \<noteq> [])
       (map strip (split_char CHR ''.'' []
          (map (\<lambda>c. if c = CHR ''!'' \<or> c = CHR ''?'' then CHR ''.'' else c) text)))"
proof -
  have "replace_char CHR ''?'' CHR ''.'' (replace_char CHR ''!'' CHR ''.'' text)
        = map (\<lambda>c. if c = CHR ''!'' \<or> c = CHR ''?'' then CHR ''.'' else c) text"
    by (simp add: replace_char_def)
  then show ?thesis
    by (simp add: sentences_of_def Let_def filter_map comp_def)
qed

lemma sentence_based_chunks_refines:
  assumes "0 < k"
  shows "sentence_based_chunks text k = Inr (sentence_based_spec text (nat k))"
proof -
  from assms have k: "int (nat k) = k" "0 < nat k" by simp_all
  have "sentence_based_chunks text k =
          Inr (sentence_loop (sentences_of text) (int (nat k))
                 (map (\<lambda>j. int j * int (nat k))
                    [0 ..< (length (sentences_of text) + nat k - 1) div nat k]) [])"
    using assms by (simp add: sentence_based_chunks_def py_range_def Let_def k(1))
  also have "\<dots> = Inr (map (\<lambda>batch. join ''. '' batch @ ''.'') (batches (nat k) (sentences_of text)))"
    using sentence_loop_batches[OF k(2), of "sentences_of text"] sentences_of_nonempty by blast
  also have "\<dots> = Inr (sentence_based_spec text (nat k))"
    by (simp add: sentence_based_spec_def Let_def sentences_of_spec_words)
  finally show ?thesis .
qed

lemma split_char_no_separator: "sep \<notin> set s \<Longrightarrow> split_char sep cur s = [cur @ s]"
  by (induction s arbitrary: cur) auto

lemma strip_blank:
  assumes "\<forall>c \<in> set s. is_space c"
  shows "strip s = []"
proof -
  from assms have d: "dropWhile is_space s = []" by (induction s) simp_all
  show ?thesis unfolding strip_def d by simp
qed

lemma is_space_terminators:
  "\<not> is_space CHR ''.''" "\<not> is_space CHR ''!''" "\<not> is_space CHR ''?''"
  by (simp_all add: is_space_def)

lemma sentences_of_blank:
  assumes "\<forall>c \<in> set text. is_space c"
  shows "sentences_of text = []"
proof -
  have no: "CHR ''.'' \<notin> set text" "CHR ''!'' \<notin> set text" "CHR ''?'' \<notin> set text"
    using assms is_space_terminators by blast+
  have r1: "replace_char CHR ''!'' CHR ''.'' text = text"
    unfolding replace_char_def using no(2) by (intro map_idI) auto
  have r2: "replace_char CHR ''?'' CHR ''.'' text = text"
    unfolding replace_char_def using no(3) by (intro map_idI) auto
  have "split_char CHR ''.'' [] text = [text]"
    using no(1) by (simp add: split_char_no_separator)
  with strip_blank[OF assms] show ?thesis by (simp add: sentences_of_def Let_def r1 r2)
qed

text \<open>
  Claim C7, as the code has it.  For every text and every \<open>sentences_per_chunk \<ge> 1\<close>,
  sentence chunking does what the contract says: \<open>!\<close> and \<open>?\<close> become \<open>.\<close>, the text is split
  at \<open>.\<close>, the fragments are trimmed and the empty ones dropped, and consecutive sentences
  are grouped into batches of \<open>sentences_per_chunk\<close>, joined with \<^verbatim>\<open>". "\<close> and closed with
  \<open>.\<close>.  Every chunk ends in a full stop, a text of whitespace only gives no chunk, and the
  text \<^verbatim>\<open>"One. Two. Three. Four."\<close> with two sentences per chunk gives exactly two chunks.
\<close>

theorem sentence_based_chunks_contract:
  assumes "0 < sentences_per_chunk"
  shows "sentence_based_chunks text sentences_per_chunk
           = Inr (sentence_based_spec text (nat sentences_per_chunk)) \<and>
         (\<forall>chunk \<in> set (sentence_based_spec text (nat sentences_per_chunk)).
            chunk \<noteq> [] \<and> last chunk = CHR ''.'') \<and>
         ((\<forall>c \<in> set text. is_space c) \<longrightarrow>
            sentence_based_chunks text sentences_per_chunk = Inr []) \<and>
         sentence_based_chunks ''One. Two. Three. Four.'' 2 = Inr [''One. Two.'', ''Three. Four.'']"
proof -
  have a: "sentence_based_chunks text sentences_per_chunk
             = Inr (sentence_based_spec text (nat sentences_per_chunk))"
    by (rule sentence_based_chunks_refines[OF assms])
  have b: "\<forall>chunk \<in> set (sentence_based_spec text (nat sentences_per_chunk)).
             chunk \<noteq> [] \<and> last chunk = CHR ''.''"
    by (auto simp: sentence_based_spec_def Let_def)
  have c: "sentence_based_chunks text sentences_per_chunk = Inr []"
    if "\<forall>c \<in> set text. is_space c"
    using assms sentences_of_blank[OF that]
    by (simp add: sentence_based_chunks_def py_range_def Let_def)
  have d: "sentence_based_chunks ''One. Two. Three. Four.'' 2 = Inr [''One. Two.'', ''Three. Four.'']"
    by code_simp
  from a b c d show ?thesis by blast
qed

text \<open>Three sentences with mixed terminators, two per chunk; and a text of blanks.\<close>

theorem sentence_based_chunks_contract_witness:
  "(0::int) < 2 \<and> list_all is_space ''   '' \<and>
   sentence_based_chunks ''Hi! Ok? Go.'' 2 = Inr [''Hi. Ok.'', ''Go.''] \<and>
   sentence_based_spec ''Hi! Ok? Go.'' (nat 2) = [''Hi. Ok.'', ''Go.''] \<and>
   sentence_based_chunks ''   '' 2 = Inr []"
proof -
  have pos: "(0::int) < 2" by simp
  have blank: "\<forall>c \<in> set ''   ''. is_space c" by (simp add: is_space_def)
  have run: "sentence_based_chunks ''Hi! Ok? Go.'' 2 = Inr [''Hi. Ok.'', ''Go.'']"
    by code_simp
  from sentence_based_chunks_contract[OF pos, of "''Hi! Ok? Go.''"]
  have "sentence_based_chunks ''Hi! Ok? Go.'' 2 = Inr (sentence_based_spec ''Hi! Ok? Go.'' (nat 2))"
    by blast
  with run have spec: "sentence_based_spec ''Hi! Ok? Go.'' (nat 2) = [''Hi. Ok.'', ''Go.'']"
    by simp
  from sentence_based_chunks_contract[OF pos, of "''   ''"] blank
  have "sentence_based_chunks ''   '' 2 = Inr []" by blast
  moreover from blank have "list_all is_space ''   ''" by (simp only: list_all_iff)
  ultimately show ?thesis using pos run spec by blast
qed

text \<open>
  The claim as stated, for every \<open>sentences_per_chunk\<close>, fails: with \<open>sentences_per_chunk = 0\<close>
  the \<^verbatim>\<open>range\<close> of the loop raises, so the empty text and a text of blanks give an exception
  instead of the empty sequence.
\<close>

theorem sentence_based_zero_step_counterexample:
  "sentence_based_chunks [] 0 = Inl RangeStepZero \<and>
   sentence_based_chunks ''   '' 0 = Inl RangeStepZero"
  by (simp add: sentence_based_chunks_def py_range_def)

subsection \<open>Scoring, ranking and the top-k cut\<close>

lemma score_rows_skips_empty:
  "score_rows cosine q rs acc = score_rows cosine q (filter (\<lambda>r. embedding r \<noteq> []) rs) acc"
  by (induction rs arbitrary: acc) (simp_all add: Let_def split: sum.splits)

lemma score_rows_all_scored:
  assumes "\<forall>r \<in> set rs. embedding r \<noteq> [] \<longrightarrow> (\<exists>s. cosine q (embedding r) = Inr s)"
  shows "\<exists>scored. score_rows cosine q rs acc = Inr (acc @ scored) \<and>
           map fst scored = map chunk_dict_of (filter (\<lambda>r. embedding r \<noteq> []) rs) \<and>
           (\<forall>(d, s) \<in> set scored. \<exists>r \<in> set rs. d = chunk_dict_of r \<and> cosine q (embedding r) = Inr s)"
  using assms
proof (induction rs arbitrary: acc)
  case Nil
  show ?case by simp
next
  case (Cons r rs)
  from Cons.prems have rest: "\<forall>r \<in> set rs. embedding r \<noteq> [] \<longrightarrow> (\<exists>s. cosine q (embedding r) = Inr s)"
    by simp
  show ?case
  proof (cases "embedding r = []")
    case True
    from Cons.IH[OF rest, of acc] obtain scored where
      "score_rows cosine q rs acc = Inr (acc @ scored)"
      "map fst scored = map chunk_dict_of (filter (\<lambda>r. embedding r \<noteq> []) rs)"
      "\<forall>(d, s) \<in> set scored. \<exists>r \<in> set rs. d = chunk_dict_of r \<and> cosine q (embedding r) = Inr s"
      by blast
    with True show ?thesis by (intro exI[of _ scored]) (auto simp: Let_def)
  next
    case False
    with Cons.prems obtain s where s: "cosine q (embedding r) = Inr s" by auto
    from Cons.IH[OF rest, of "acc @ [(chunk_dict_of r, s)]"] obtain scored where sc:
      "score_rows cosine q rs (acc @ [(chunk_dict_of r, s)]) = Inr ((acc @ [(chunk_dict_of r, s)]) @ scored)"
      "map fst scored = map chunk_dict_of (filter (\<lambda>r. embedding r \<noteq> []) rs)"
      "\<forall>(d, s) \<in> set scored. \<exists>r \<in> set rs. d = chunk_dict_of r \<and> cosine q (embedding r) = Inr s"
      by blast
    from False s sc(1) have "score_rows cosine q (r # rs) acc = Inr (acc @ ((chunk_dict_of r, s) # scored))"
      by (simp add: Let_def calculate_similarity_def)
    moreover from False sc(2) have "map fst ((chunk_dict_of r, s) # scored)
        = map chunk_dict_of (filter (\<lambda>r. embedding r \<noteq> []) (r # rs))" by simp
    moreover from s sc(3) have "\<forall>(d, s') \<in> set ((chunk_dict_of r, s) # scored).
        \<exists>r' \<in> set (r # rs). d = chunk_dict_of r' \<and> cosine q (embedding r') = Inr s'"
      by auto
    ultimately show ?thesis by blast
  qed
qed

lemma score_rows_raises:
  assumes "r \<in> set rs" "embedding r \<noteq> []" "cosine q (embedding r) = Inl e"
  shows "\<exists>e'. score_rows cosine q rs acc = Inl e'"
  using assms
proof (induction rs arbitrary: acc)
  case Nil
  then show ?case by simp
next
  case (Cons a rs)
  show ?case
  proof (cases "a = r")
    case True
    with Cons.prems show ?thesis by (simp add: Let_def calculate_similarity_def)
  next
    case False
    with Cons.prems have "r \<in> set rs" by simp
    from Cons.IH[OF this Cons.prems(2,3)] show ?thesis
      by (auto simp: Let_def split: sum.splits)
  qed
qed

lemma insert_desc_insort: "insert_desc x ys = insort_key (\<lambda>e. - snd e) x ys"
  by (induction ys) simp_all

lemma sort_desc_sort_key: "sort_desc xs = sort_key (\<lambda>e. - snd e) xs"
proof -
  have eq: "insert_desc = insort_key (\<lambda>e. - snd e)"
    by (intro ext) (rule insert_desc_insort)
  show ?thesis by (simp only: sort_desc_def sort_key_def eq)
qed

lemma sort_desc_descending: "sorted_wrt (\<lambda>a b. snd b \<le> snd a) (sort_desc xs)"
proof -
  have "sorted (map (\<lambda>e. - snd e) (sort_desc xs))"
    unfolding sort_desc_sort_key by (rule sorted_sort_key)
  then show ?thesis by (simp add: sorted_map)
qed

lemma sort_desc_stable:
  "filter (\<lambda>e. snd e = s) (sort_desc xs) = filter (\<lambda>e. snd e = s) xs"
proof -
  have "filter (\<lambda>e. - snd e = - s) (sort_key (\<lambda>e. - snd e) xs) = filter (\<lambda>e. - snd e = - s) xs"
    by (rule sort_key_stable)
  then show ?thesis by (simp add: sort_desc_sort_key)
qed

lemma py_prefix_take:
  "py_prefix xs k = take (if 0 \<le> k then nat k else length xs - nat (- k)) xs"
proof (cases "0 \<le> k")
  case True
  then show ?thesis by (auto simp: py_prefix_def py_slice_def Let_def min_def)
next
  case False
  then have "nat (k + int (length xs)) = length xs - nat (- k)" by linarith
  with False show ?thesis by (auto simp: py_prefix_def py_slice_def Let_def max_def)
qed

lemma py_prefix_nonneg: "0 \<le> k \<Longrightarrow> py_prefix xs k = take (nat k) xs"
  by (simp add: py_prefix_take)

lemma py_prefix_prefix: "prefix (py_prefix xs k) xs"
  unfolding py_prefix_take by (rule take_is_prefix)

lemma score_rows_Inr:
  "score_rows cosine q rs acc = Inr res \<Longrightarrow>
   \<exists>scored. res = acc @ scored \<and>
     map fst scored = map chunk_dict_of (filter (\<lambda>r. embedding r \<noteq> []) rs)"
proof (induction rs arbitrary: acc)
  case Nil
  then show ?case by simp
next
  case (Cons r rs)
  show ?case
  proof (cases "embedding r = []")
    case True
    with Cons.prems have "score_rows cosine q rs acc = Inr res" by (simp add: Let_def)
    from Cons.IH[OF this] True show ?thesis by simp
  next
    case False
    with Cons.prems obtain s where s: "cosine q (embedding r) = Inr s"
      and run: "score_rows cosine q rs (acc @ [(chunk_dict_of r, s)]) = Inr res"
      by (auto simp: Let_def calculate_similarity_def split: sum.splits)
    from Cons.IH[OF run] obtain scored where
      "res = (acc @ [(chunk_dict_of r, s)]) @ scored"
      "map fst scored = map chunk_dict_of (filter (\<lambda>r. embedding r \<noteq> []) rs)"
      by blast
    with False show ?thesis by (intro exI[of _ "(chunk_dict_of r, s) # scored"]) simp
  qed
qed

lemma embedding_sample_row: "embedding (sample_row n v) = v"
  by (simp add: sample_row_def)

lemma cosine_similarity_unit:
  "cosine_similarity [1, 0] [0, 1] = Inr 0" "cosine_similarity [1, 0] [1, 0] = Inr 1"
  "cosine_similarity [1, 0] [1] = Inl IncompatibleDimension"
  by (simp_all add: cosine_similarity_def dot_def row_norm_def)

text \<open>
  Claim C9.  If the store holds no chunk, the search returns the empty sequence, whatever
  the query vector and \<open>top_k\<close> are, and raises nothing.
\<close>

theorem search_empty_store:
  assumes "rows db = []"
  shows "search_similar_chunks cosine db query_embedding top_k = Inr []"
  using assms by (simp add: search_similar_chunks_def sort_desc_def py_prefix_def py_slice_def)

theorem search_empty_store_witness:
  "rows \<lparr>rows = [], next_id = 1\<rparr> = [] \<and>
   search_similar_chunks cosine_similarity \<lparr>rows = [], next_id = 1\<rparr> [1, 0] 5 = Inr []"
  using search_empty_store[of "\<lparr>rows = [], next_id = 1\<rparr>" cosine_similarity "[1, 0]" 5]
  by simp

text \<open>
  Claim C8.  Whatever the search returns is sorted by descending score, and entries of
  equal score keep the order in which their rows were read: the returned sequence starts
  the stable descending ranking of the scored rows, which lists the non-empty rows in
  reading order, so the results of any one score are an initial part, in reading order,
  of the rows of that score.
\<close>

theorem search_results_sorted_stable:
  assumes "search_similar_chunks cosine db query_embedding top_k = Inr results"
  shows "sorted_wrt (\<lambda>a b. snd b \<le> snd a) results \<and>
         (\<exists>scored. score_rows cosine query_embedding (rows db) [] = Inr scored \<and>
            map fst scored = map chunk_dict_of (filter (\<lambda>r. embedding r \<noteq> []) (rows db)) \<and>
            prefix results (sort_desc scored) \<and>
            (\<forall>s. filter (\<lambda>e. snd e = s) (sort_desc scored) = filter (\<lambda>e. snd e = s) scored) \<and>
            (\<forall>s. prefix (filter (\<lambda>e. snd e = s) results) (filter (\<lambda>e. snd e = s) scored)))"
proof -
  from assms obtain scored where sc: "score_rows cosine query_embedding (rows db) [] = Inr scored"
    and res: "results = py_prefix (sort_desc scored) top_k"
    by (auto simp: search_similar_chunks_def split: sum.splits)
  from score_rows_Inr[OF sc]
  have order: "map fst scored = map chunk_dict_of (filter (\<lambda>r. embedding r \<noteq> []) (rows db))"
    by simp
  have pre: "prefix results (sort_desc scored)"
    unfolding res by (rule py_prefix_prefix)
  have "sorted_wrt (\<lambda>a b. snd b \<le> snd a) (take n (sort_desc scored))" for n
    by (rule sorted_wrt_take) (rule sort_desc_descending)
  then have sorted: "sorted_wrt (\<lambda>a b. snd b \<le> snd a) results"
    unfolding res py_prefix_take by blast
  have "prefix (filter (\<lambda>e. snd e = s) results) (filter (\<lambda>e. snd e = s) scored)" for s
    using filter_mono_prefix[OF pre, of "\<lambda>e. snd e = s"] by (simp only: sort_desc_stable)
  with sorted sc order pre sort_desc_stable show ?thesis by blast
qed

text \<open>Three rows, the second and third with the same score: they come first, in the
  order in which they were read.\<close>

theorem search_results_sorted_stable_witness:
  "search_similar_chunks cosine_similarity
     \<lparr>rows = [sample_row 1 [0, 1], sample_row 2 [1, 0], sample_row 3 [1, 0]], next_id = 4\<rparr>
     [1, 0] 5
   = Inr [(chunk_dict_of (sample_row 2 [1, 0]), 1), (chunk_dict_of (sample_row 3 [1, 0]), 1),
          (chunk_dict_of (sample_row 1 [0, 1]), 0)] \<and>
   sorted_wrt (\<lambda>a b. snd b \<le> snd a)
     [(chunk_dict_of (sample_row 2 [1, 0]), 1::real), (chunk_dict_of (sample_row 3 [1, 0]), 1),
      (chunk_dict_of (sample_row 1 [0, 1]), 0)]"
proof -
  have run: "search_similar_chunks cosine_similarity
     \<lparr>rows = [sample_row 1 [0, 1], sample_row 2 [1, 0], sample_row 3 [1, 0]], next_id = 4\<rparr>
     [1, 0] 5
   = Inr [(chunk_dict_of (sample_row 2 [1, 0]), 1), (chunk_dict_of (sample_row 3 [1, 0]), 1),
          (chunk_dict_of (sample_row 1 [0, 1]), 0)]"
    by (simp add: search_similar_chunks_def calculate_similarity_def Let_def embedding_sample_row
          cosine_similarity_unit sort_desc_def py_prefix_def py_slice_def)
  from search_results_sorted_stable[OF run] run show ?thesis by blast
qed

text \<open>
  The search returns \<^verbatim>\<open>results[:top_k]\<close>.  For \<open>top_k \<ge> 0\<close> that is the first \<open>top_k\<close>
  entries of the ranking, all of them when there are fewer.
\<close>

lemma search_top_k_nonneg:
  assumes "0 \<le> top_k" "score_rows cosine query_embedding (rows db) [] = Inr scored"
  shows "search_similar_chunks cosine db query_embedding top_k
           = Inr (take (nat top_k) (sort_desc scored))"
  using assms by (simp add: search_similar_chunks_def py_prefix_nonneg)

text \<open>
  Claim C2.  The search is to return the first \<open>top_k\<close> ranked entries, and nothing for
  \<open>top_k \<le> 0\<close>.  For a negative \<open>top_k\<close> the slice instead drops the last \<open>- top_k\<close>
  entries: with three candidates and \<open>top_k = -1\<close> the search returns two results.
\<close>

theorem search_negative_top_k_returns_results:
  "search_similar_chunks cosine_similarity
     \<lparr>rows = [sample_row 1 [0, 1], sample_row 2 [1, 0], sample_row 3 [1, 0]], next_id = 4\<rparr>
     [1, 0] (- 1)
   = Inr [(chunk_dict_of (sample_row 2 [1, 0]), 1), (chunk_dict_of (sample_row 3 [1, 0]), 1)]"
  by (simp add: search_similar_chunks_def calculate_similarity_def Let_def embedding_sample_row
        cosine_similarity_unit sort_desc_def py_prefix_def py_slice_def)

lemma score_rows_error_origin:
  "score_rows cosine q rs acc = Inl e \<Longrightarrow>
   \<exists>r \<in> set rs. embedding r \<noteq> [] \<and> cosine q (embedding r) = Inl e"
proof (induction rs arbitrary: acc)
  case Nil
  then show ?case by simp
next
  case (Cons r rs)
  show ?case
  proof (cases "embedding r = []")
    case True
    with Cons.prems have "score_rows cosine q rs acc = Inl e" by (simp add: Let_def)
    from Cons.IH[OF this] show ?thesis by auto
  next
    case False
    show ?thesis
    proof (cases "cosine q (embedding r)")
      case (Inl e')
      with False Cons.prems show ?thesis by (simp add: Let_def calculate_similarity_def)
    next
      case (Inr s)
      with False Cons.prems have "score_rows cosine q rs (acc @ [(chunk_dict_of r, s)]) = Inl e"
        by (simp add: Let_def calculate_similarity_def)
      from Cons.IH[OF this] show ?thesis by auto
    qed
  qed
qed

lemma cosine_similarity_error: "cosine_similarity x y = Inl e \<Longrightarrow> e = IncompatibleDimension"
  by (auto simp: cosine_similarity_def split: if_splits)

lemma cosine_similarity_defined:
  "y \<noteq> [] \<Longrightarrow> length y = length x \<Longrightarrow> \<exists>s. cosine_similarity x y = Inr s"
  by (auto simp: cosine_similarity_def)

lemma cosine_similarity_mismatch:
  "length y \<noteq> length x \<Longrightarrow> cosine_similarity x y = Inl IncompatibleDimension"
  by (auto simp: cosine_similarity_def)

text \<open>
  Claim C3, as the code has it.  A candidate whose stored vector is empty is skipped
  silently: the search gives what it gives on the store without such rows.  There is
  no check of the length: a non-empty stored vector whose length differs from the query
  vector's goes to the similarity computation, which refuses it, and the search ends
  with that exception.  When every non-empty stored vector has the query's length, all
  of them are scored, in reading order, and ranked.
\<close>

theorem search_skips_only_empty_vectors:
  "search_similar_chunks cosine_similarity db query_embedding top_k
     = search_similar_chunks cosine_similarity
         (db\<lparr>rows := filter (\<lambda>r. embedding r \<noteq> []) (rows db)\<rparr>) query_embedding top_k \<and>
   ((\<exists>r \<in> set (rows db). embedding r \<noteq> [] \<and> length (embedding r) \<noteq> length query_embedding) \<longrightarrow>
      search_similar_chunks cosine_similarity db query_embedding top_k
        = Inl IncompatibleDimension) \<and>
   ((\<forall>r \<in> set (rows db). embedding r \<noteq> [] \<longrightarrow> length (embedding r) = length query_embedding) \<longrightarrow>
      (\<exists>scored. score_rows cosine_similarity query_embedding (rows db) [] = Inr scored \<and>
         map fst scored = map chunk_dict_of (filter (\<lambda>r. embedding r \<noteq> []) (rows db)) \<and>
         search_similar_chunks cosine_similarity db query_embedding top_k
           = Inr (py_prefix (sort_desc scored) top_k)))"
proof -
  let ?q = query_embedding
  have a: "search_similar_chunks cosine_similarity db ?q top_k
     = search_similar_chunks cosine_similarity
         (db\<lparr>rows := filter (\<lambda>r. embedding r \<noteq> []) (rows db)\<rparr>) ?q top_k"
    using score_rows_skips_empty[of cosine_similarity ?q "rows db" "[]"]
    by (simp add: search_similar_chunks_def)
  have b: "search_similar_chunks cosine_similarity db ?q top_k = Inl IncompatibleDimension"
    if "\<exists>r \<in> set (rows db). embedding r \<noteq> [] \<and> length (embedding r) \<noteq> length ?q"
  proof -
    from that obtain r where r: "r \<in> set (rows db)" "embedding r \<noteq> []"
      "length (embedding r) \<noteq> length ?q" by blast
    from cosine_similarity_mismatch[OF r(3)]
    have "cosine_similarity ?q (embedding r) = Inl IncompatibleDimension" .
    with r(1,2) score_rows_raises[of r "rows db" cosine_similarity ?q IncompatibleDimension "[]"]
    obtain e
      where e: "score_rows cosine_similarity ?q (rows db) [] = Inl e" by blast
    from score_rows_error_origin[OF e] cosine_similarity_error have "e = IncompatibleDimension"
      by blast
    with e show ?thesis by (simp add: search_similar_chunks_def)
  qed
  have c: "\<exists>scored. score_rows cosine_similarity ?q (rows db) [] = Inr scored \<and>
         map fst scored = map chunk_dict_of (filter (\<lambda>r. embedding r \<noteq> []) (rows db)) \<and>
         search_similar_chunks cosine_similarity db ?q top_k = Inr (py_prefix (sort_desc scored) top_k)"
    if "\<forall>r \<in> set (rows db). embedding r \<noteq> [] \<longrightarrow> length (embedding r) = length ?q"
  proof -
    from that cosine_similarity_defined
    have "\<forall>r \<in> set (rows db). embedding r \<noteq> [] \<longrightarrow> (\<exists>s. cosine_similarity ?q (embedding r) = Inr s)"
      by blast
    with score_rows_all_scored[of "rows db" cosine_similarity ?q "[]"] obtain scored where
      "score_rows cosine_similarity ?q (rows db) [] = Inr scored"
      "map fst scored = map chunk_dict_of (filter (\<lambda>r. embedding r \<noteq> []) (rows db))"
      by auto
    then show ?thesis by (simp add: search_similar_chunks_def)
  qed
  from a b c show ?thesis by blast
qed

text \<open>A store with a stored vector of the wrong length, where the search raises, and a
  store with an empty stored vector, which is skipped.\<close>

theorem search_skips_only_empty_vectors_witness:
  "list_ex (\<lambda>r. embedding r \<noteq> [] \<and> length (embedding r) \<noteq> length [1::real, 0])
     (rows \<lparr>rows = [sample_row 1 [1, 0], sample_row 2 [1, 0, 0]], next_id = 3\<rparr>) \<and>
   search_similar_chunks cosine_similarity
     \<lparr>rows = [sample_row 1 [1, 0], sample_row 2 [1, 0, 0]], next_id = 3\<rparr> [1, 0] 5
     = Inl IncompatibleDimension \<and>
   list_all (\<lambda>r. embedding r = [] \<or> length (embedding r) = length [1::real, 0])
     (rows \<lparr>rows = [sample_row 1 [], sample_row 2 [1, 0]], next_id = 3\<rparr>) \<and>
   search_similar_chunks cosine_similarity
     \<lparr>rows = [sample_row 1 [], sample_row 2 [1, 0]], next_id = 3\<rparr> [1, 0] 5
     = Inr [(chunk_dict_of (sample_row 2 [1, 0]), 1)]"
proof -
  let ?bad = "\<lparr>rows = [sample_row 1 [1, 0], sample_row 2 [1, 0, 0]], next_id = 3\<rparr>"
  let ?ok = "\<lparr>rows = [sample_row 1 [], sample_row 2 [1, 0]], next_id = 3\<rparr>"
  have h1: "\<exists>r \<in> set (rows ?bad). embedding r \<noteq> [] \<and> length (embedding r) \<noteq> length [1::real, 0]"
    by (simp add: embedding_sample_row)
  have h2: "\<forall>r \<in> set (rows ?ok). embedding r \<noteq> [] \<longrightarrow> length (embedding r) = length [1::real, 0]"
    by (simp add: embedding_sample_row)
  from search_skips_only_empty_vectors[of ?bad "[1, 0]" 5] h1
  have r1: "search_similar_chunks cosine_similarity ?bad [1, 0] 5 = Inl IncompatibleDimension"
    by blast
  from search_skips_only_empty_vectors[of ?ok "[1, 0]" 5] h2
  obtain scored where "score_rows cosine_similarity [1, 0] (rows ?ok) [] = Inr scored"
    "search_similar_chunks cosine_similarity ?ok [1, 0] 5 = Inr (py_prefix (sort_desc scored) 5)"
    by blast
  then have r2: "search_similar_chunks cosine_similarity ?ok [1, 0] 5
                   = Inr [(chunk_dict_of (sample_row 2 [1, 0]), 1)]"
    by (auto simp: calculate_similarity_def Let_def embedding_sample_row
          cosine_similarity_unit sort_desc_def py_prefix_def py_slice_def)
  have l1: "list_ex (\<lambda>r. embedding r \<noteq> [] \<and> length (embedding r) \<noteq> length [1::real, 0])
              (rows ?bad)"
    by (simp add: embedding_sample_row)
  have l2: "list_all (\<lambda>r. embedding r = [] \<or> length (embedding r) = length [1::real, 0])
              (rows ?ok)"
    by (simp add: embedding_sample_row)
  from l1 r1 l2 r2 show ?thesis by blast
qed

text \<open>
  The claim as stated fails: a stored vector of length one against a query vector of
  length two is not excluded; the search raises.
\<close>

theorem search_length_mismatch_counterexample:
  "search_similar_chunks cosine_similarity
     \<lparr>rows = [sample_row 1 [1, 0], sample_row 2 [1]], next_id = 3\<rparr> [1, 0] 5
   = Inl IncompatibleDimension"
  by (simp add: search_similar_chunks_def calculate_similarity_def Let_def embedding_sample_row
        cosine_similarity_unit)

subsection \<open>The indexing pipeline and the store\<close>

lemma embed_loop_Inr:
  "embed_loop g f s chunks acc = Inr chunks_data \<Longrightarrow>
   map fst chunks_data = map fst acc @ chunks \<and>
   (\<forall>(t, v, f', s') \<in> set chunks_data.
      (t, v, f', s') \<in> set acc \<or> (g t = Inr v \<and> f' = f \<and> s' = s))"
proof (induction chunks arbitrary: acc)
  case Nil
  then show ?case by auto
next
  case (Cons c chunks)
  from Cons.prems obtain v where v: "g c = Inr v"
    and run: "embed_loop g f s chunks (acc @ [(c, v, f, s)]) = Inr chunks_data"
    by (auto split: sum.splits)
  from Cons.IH[OF run] v show ?case by auto
qed

lemma embed_loop_Inl:
  "embed_loop g f s chunks acc = Inl e \<Longrightarrow> \<exists>c \<in> set chunks. g c = Inl e"
proof (induction chunks arbitrary: acc)
  case Nil
  then show ?case by simp
next
  case (Cons c chunks)
  show ?case
  proof (cases "g c")
    case (Inl e')
    with Cons.prems show ?thesis by simp
  next
    case (Inr v)
    with Cons.prems have "embed_loop g f s chunks (acc @ [(c, v, f, s)]) = Inl e" by simp
    from Cons.IH[OF this] show ?thesis by auto
  qed
qed

lemma insert_rows_texts: "map chunk_text (insert_rows now n vs) = map fst vs"
  by (induction now n vs rule: insert_rows.induct) simp_all

lemma insert_rows_ids: "map chunk_id (insert_rows now n vs) = [n ..< n + length vs]"
proof (induction now n vs rule: insert_rows.induct)
  case (1 now n)
  show ?case by simp
next
  case (2 now n t e f s vs)
  have "[n ..< n + length ((t, e, f, s) # vs)] = n # [Suc n ..< Suc n + length vs]"
    by (simp add: upt_conv_Cons del: upt_Suc)
  with "2.IH" show ?case by simp
qed

lemma insert_rows_origin:
  "r \<in> set (insert_rows now n vs) \<Longrightarrow>
   (chunk_text r, embedding r, filename r, split_strategy r) \<in> set vs"
  by (induction now n vs rule: insert_rows.induct) auto

text \<open>
  Claim C1, as the code has it.  A run that fails in extraction or in chunking leaves
  the store as it was.  Once the chunks exist the old chunks are deleted, before the
  first embedding is requested: a run in which an embedding call fails ends with that
  exception and an empty store, and a run in which every call succeeds ends with the
  store holding exactly the new chunks, numbered from 1, each with its embedding.  The
  store never holds a part of the new chunks.
\<close>

theorem process_document_store_outcome:
  assumes "process_document extract_text generate_embedding now db file_path strategy
             chunk_size overlap sentences_per_chunk = Some out"
  shows "(\<forall>db'. out = Indexed db' \<longrightarrow>
            (\<exists>text chunks. extract_text file_path = Inr text \<and>
               split_text text strategy chunk_size overlap sentences_per_chunk
                 = Some (Inr chunks) \<and>
               map chunk_text (rows db') = chunks \<and>
               map chunk_id (rows db') = [1 ..< Suc (length chunks)] \<and>
               (\<forall>r \<in> set (rows db').
                  generate_embedding (chunk_text r) = Inr (embedding r) \<and>
                  filename r = basename file_path \<and> split_strategy r = strategy))) \<and>
         (\<forall>e db'. out = Raised e db' \<longrightarrow>
            (db' = db \<and>
               (extract_text file_path = Inl e \<or>
                (\<exists>text. extract_text file_path = Inr text \<and>
                   split_text text strategy chunk_size overlap sentences_per_chunk
                     = Some (Inl e)))) \<or>
            (rows db' = [] \<and>
               (\<exists>text chunks. extract_text file_path = Inr text \<and>
                  split_text text strategy chunk_size overlap sentences_per_chunk
                    = Some (Inr chunks) \<and>
                  (\<exists>c \<in> set chunks. generate_embedding c = Inl e))))"
proof (cases "extract_text file_path")
  case (Inl e)
  with assms have "out = Raised e db" by (simp add: process_document_def)
  with Inl show ?thesis by simp
next
  case (Inr text')
  note ex = this
  let ?split = "split_text text' strategy chunk_size overlap sentences_per_chunk"
  from assms ex obtain sp where sp: "?split = Some sp"
    by (cases ?split) (simp_all add: process_document_def)
  show ?thesis
  proof (cases sp)
    case (Inl e)
    with assms ex sp have "out = Raised e db" by (simp add: process_document_def)
    with ex sp Inl show ?thesis by simp
  next
    case (Inr chunks)
    note ch = this
    let ?loop = "embed_loop generate_embedding (basename file_path) strategy chunks []"
    show ?thesis
    proof (cases ?loop)
      case (Inl e)
      with assms ex sp ch have out: "out = Raised e (delete_all_chunks db)"
        by (simp add: process_document_def Let_def)
      from embed_loop_Inl[OF Inl] obtain c where "c \<in> set chunks" "generate_embedding c = Inl e"
        by blast
      with out ex sp ch show ?thesis by (auto simp: delete_all_chunks_def)
    next
      case (Inr chunks_data)
      with assms ex sp ch
      have out: "out = Indexed (insert_chunks now (delete_all_chunks db) chunks_data)"
        by (simp add: process_document_def Let_def)
      let ?db' = "insert_chunks now (delete_all_chunks db) chunks_data"
      have rows: "rows ?db' = insert_rows now 1 chunks_data"
        by (simp add: insert_chunks_def delete_all_chunks_def)
      from embed_loop_Inr[OF Inr] have fst: "map fst chunks_data = chunks"
        and each: "\<forall>(t, v, f', s') \<in> set chunks_data.
                     generate_embedding t = Inr v \<and> f' = basename file_path \<and> s' = strategy"
        by auto
      have texts: "map chunk_text (rows ?db') = chunks"
        by (simp add: rows insert_rows_texts fst)
      from fst have "length chunks_data = length chunks" by (metis length_map)
      then have ids: "map chunk_id (rows ?db') = [1 ..< Suc (length chunks)]"
        by (simp add: rows insert_rows_ids)
      have emb: "generate_embedding (chunk_text r) = Inr (embedding r) \<and>
                 filename r = basename file_path \<and> split_strategy r = strategy"
        if "r \<in> set (rows ?db')" for r
      proof -
        from that have "(chunk_text r, embedding r, filename r, split_strategy r) \<in> set chunks_data"
          unfolding rows by (rule insert_rows_origin)
        with each show ?thesis by blast
      qed
      from out ex sp ch texts ids emb show ?thesis by auto
    qed
  qed
qed

lemma sample_sentence_chunks:
  "sentence_based_chunks ''Good. Fine.'' 1 = Inr [''Good.'', ''Fine.'']"
  "sentence_based_chunks ''Good. bad.'' 1 = Inr [''Good.'', ''bad.'']"
  by code_simp+

lemma sample_basename: "basename ''docs/a.pdf'' = ''a.pdf''"
  by (simp add: basename_def)

text \<open>
  Two runs on a store that holds one chunk.  In the first both embeddings succeed and the
  store ends with the two new chunks.  In the second the embedding of the second chunk
  fails and the store ends empty.
\<close>

theorem process_document_store_outcome_witness:
  "process_document (read_as ''Good. Fine.'') (embed_unless ''bad.'') 7
     \<lparr>rows = [sample_row 1 [1, 0]], next_id = 2\<rparr> ''docs/a.pdf'' ''sentence'' 1000 200 1
   = Some (Indexed
       \<lparr>rows = [\<lparr>chunk_id = 1, chunk_text = ''Good.'', filename = ''a.pdf'',
                   split_strategy = ''sentence'', created_at = 7, embedding = [1, 0]\<rparr>,
                 \<lparr>chunk_id = 2, chunk_text = ''Fine.'', filename = ''a.pdf'',
                   split_strategy = ''sentence'', created_at = 7, embedding = [1, 0]\<rparr>],
        next_id = 3\<rparr>) \<and>
   process_document (read_as ''Good. bad.'') (embed_unless ''bad.'') 7
     \<lparr>rows = [sample_row 1 [1, 0]], next_id = 2\<rparr> ''docs/a.pdf'' ''sentence'' 1000 200 1
   = Some (Raised EmbeddingError \<lparr>rows = [], next_id = 1\<rparr>) \<and>
   (\<exists>text chunks. read_as ''Good. Fine.'' ''docs/a.pdf'' = Inr text \<and>
      split_text text ''sentence'' 1000 200 1 = Some (Inr chunks) \<and>
      chunks = [''Good.'', ''Fine.'']) \<and>
   (\<exists>text chunks. read_as ''Good. bad.'' ''docs/a.pdf'' = Inr text \<and>
      split_text text ''sentence'' 1000 200 1 = Some (Inr chunks) \<and>
      (\<exists>c \<in> set chunks. embed_unless ''bad.'' c = Inl EmbeddingError))"
proof -
  let ?db = "\<lparr>rows = [sample_row 1 [1, 0]], next_id = 2\<rparr>"
  let ?new = "\<lparr>rows = [\<lparr>chunk_id = 1, chunk_text = ''Good.'', filename = ''a.pdf'',
                   split_strategy = ''sentence'', created_at = 7, embedding = [1, 0]\<rparr>,
                 \<lparr>chunk_id = 2, chunk_text = ''Fine.'', filename = ''a.pdf'',
                   split_strategy = ''sentence'', created_at = 7, embedding = [1, 0]\<rparr>],
        next_id = 3\<rparr>"
  have run1: "process_document (read_as ''Good. Fine.'') (embed_unless ''bad.'') 7 ?db
                ''docs/a.pdf'' ''sentence'' 1000 200 1 = Some (Indexed ?new)"
    by (simp add: process_document_def read_as_def split_text_def sample_sentence_chunks
          sample_basename embed_unless_def delete_all_chunks_def insert_chunks_def Let_def)
  have run2: "process_document (read_as ''Good. bad.'') (embed_unless ''bad.'') 7 ?db
                ''docs/a.pdf'' ''sentence'' 1000 200 1
              = Some (Raised EmbeddingError \<lparr>rows = [], next_id = 1\<rparr>)"
    by (simp add: process_document_def read_as_def split_text_def sample_sentence_chunks
          sample_basename embed_unless_def delete_all_chunks_def Let_def)
  from process_document_store_outcome[OF run1]
  have "\<exists>text chunks. read_as ''Good. Fine.'' ''docs/a.pdf'' = Inr text \<and>
          split_text text ''sentence'' 1000 200 1 = Some (Inr chunks) \<and>
          map chunk_text (rows ?new) = chunks"
    by blast
  then have ok: "\<exists>text chunks. read_as ''Good. Fine.'' ''docs/a.pdf'' = Inr text \<and>
          split_text text ''sentence'' 1000 200 1 = Some (Inr chunks) \<and>
          chunks = [''Good.'', ''Fine.'']"
    by auto
  have "\<not> (\<lparr>rows = [], next_id = 1\<rparr> = ?db)" by simp
  with process_document_store_outcome[OF run2]
  have failed: "\<exists>text chunks. read_as ''Good. bad.'' ''docs/a.pdf'' = Inr text \<and>
      split_text text ''sentence'' 1000 200 1 = Some (Inr chunks) \<and>
      (\<exists>c \<in> set chunks. embed_unless ''bad.'' c = Inl EmbeddingError)"
    by blast
  from run1 run2 ok failed show ?thesis by blast
qed

text \<open>
  The claim as stated fails: when the embedding of the second chunk fails, the chunk that
  the store held before the run is gone.
\<close>

theorem embedding_failure_clears_store_counterexample:
  "process_document (read_as ''Good. bad.'') (embed_unless ''bad.'') 7
     \<lparr>rows = [sample_row 1 [1, 0]], next_id = 2\<rparr> ''docs/a.pdf'' ''sentence'' 1000 200 1
   = Some (Raised EmbeddingError \<lparr>rows = [], next_id = 1\<rparr>) \<and>
   rows \<lparr>rows = [], next_id = 1\<rparr> \<noteq> rows \<lparr>rows = [sample_row 1 [1, 0]], next_id = 2\<rparr>"
  by (simp add: process_document_def read_as_def split_text_def sample_sentence_chunks
        sample_basename embed_unless_def delete_all_chunks_def Let_def)

end
